theory Spec2Isabelle
  imports Main "HOL-Library.Sublist"
begin

section \<open>The backup-file scanner of \<^verbatim>\<open>main.py\<close>\<close>

text \<open>
  The script probes \<^verbatim>\<open>url + ext\<close> for every suffix of a list with an HTTP GET and
  reports the candidates answered with status 200. Everything the script does beyond
  computing values is an effect on the outside: log records, standard output, HTTP
  requests and one output file. The effects are threaded through a record \<open>world\<close>;
  what the outside answers (the URL parser of the standard library, the HTTP client,
  the file system) is a record \<open>env\<close> of functions, so that every theorem below holds
  for every parser, every server and every file-system behaviour.
\<close>

subsection \<open>Logging\<close>

text \<open>
  \<^verbatim>\<open>logging.basicConfig(level=logging.INFO, ...)\<close>: one process-wide logger with a
  threshold. A record is emitted iff its level is at least the threshold. The
  timestamp of the format string is left out of a record.
\<close>

datatype level = DEBUG | INFO | ERROR

fun levelno :: "level \<Rightarrow> nat" where
  "levelno DEBUG = 10"
| "levelno INFO = 20"
| "levelno ERROR = 40"

record world =
  stdout :: string
  log_records :: "(level \<times> string) list"
  log_level :: level
  requests :: "string list"
  files :: "string \<rightharpoonup> string"

definition logging :: "level \<Rightarrow> string \<Rightarrow> world \<Rightarrow> world" where
  "logging lvl msg w =
     (if levelno (log_level w) \<le> levelno lvl
      then w\<lparr>log_records := log_records w @ [(lvl, msg)]\<rparr>
      else w)"

text \<open>\<^verbatim>\<open>print(s)\<close> writes the text and a newline to standard output.\<close>

definition print :: "string \<Rightarrow> world \<Rightarrow> world" where
  "print s w = w\<lparr>stdout := stdout w @ s @ [CHR 0x0A]\<rparr>"

subsection \<open>The outside: parser, HTTP client, file system\<close>

text \<open>
  \<^verbatim>\<open>urlparse\<close> returns a result with a scheme and a network location, or raises
  (\<open>None\<close>). \<^verbatim>\<open>requests.get(backup_url, allow_redirects=True)\<close> returns the final
  response, of which the script reads the status code only, or raises a
  \<^verbatim>\<open>RequestException\<close> (connection failure, timeout, DNS failure, too many
  redirects, unsupported scheme), given here by its text. The answer may depend on
  the requests made before, so that the same URL can first fail and later succeed.
  Exceptions outside that class, which the handler of the loop does not catch, are not
  part of the model. \<open>http_error_msg\<close> is the text of the \<^verbatim>\<open>HTTPError\<close> that
  \<^verbatim>\<open>raise_for_status\<close> builds for a status and a URL. \<open>open_write\<close> tells what
  happens when the file of that name is opened for writing and written: nothing, or an
  \<^verbatim>\<open>IOError\<close> with its text, from \<^verbatim>\<open>open\<close> or after some lines.
\<close>

record parse_result =
  scheme :: string
  netloc :: string

datatype http_outcome = Response nat | RequestException string

datatype io_fault = NoFault | OpenFails string | WriteFails nat string

record env =
  urlparse :: "string \<Rightarrow> parse_result option"
  requests_get :: "string list \<Rightarrow> string \<Rightarrow> http_outcome"
  http_error_msg :: "nat \<Rightarrow> string \<Rightarrow> string"
  open_write :: "string \<Rightarrow> io_fault"

text \<open>\<^verbatim>\<open>str(n)\<close> of a status code, inside an f-string.\<close>

fun str :: "nat \<Rightarrow> string" where
  "str n = (if n < 10 then [char_of (48 + n)] else str (n div 10) @ [char_of (48 + n mod 10)])"

subsection \<open>The command line\<close>

text \<open>
  The namespace returned by \<^verbatim>\<open>setup_argparse\<close>: \<^verbatim>\<open>-o\<close> and \<^verbatim>\<open>-e\<close> are \<open>None\<close>
  when absent; \<^verbatim>\<open>nargs='+'\<close> makes a supplied extension list non-empty.
\<close>

record args =
  args_url :: string
  args_verbose :: bool
  args_output :: "string option"
  args_extensions :: "string list option"

definition BACKUP_EXTENSIONS :: "string list" where
  "BACKUP_EXTENSIONS = [''.bak'', ''.swp'', ''~'', ''.old'', ''.tmp'', ''.backup'', ''.orig'']"

subsection \<open>\<^verbatim>\<open>is_valid_url\<close>\<close>

text \<open>
  \<^verbatim>\<open>all([result.scheme, result.netloc])\<close>: both strings are truthy, that is
  non-empty. The bare \<^verbatim>\<open>except\<close> turns every exception of the parser into \<open>False\<close>.
\<close>

definition is_valid_url :: "env \<Rightarrow> string \<Rightarrow> bool" where
  "is_valid_url e url =
     (case urlparse e url of
        None \<Rightarrow> False
      | Some result \<Rightarrow> scheme result \<noteq> [] \<and> netloc result \<noteq> [])"

subsection \<open>\<^verbatim>\<open>check_backup_files\<close>\<close>

text \<open>
  One round of the loop, on the pair of \<^verbatim>\<open>found_files\<close> and the world.
  \<^verbatim>\<open>raise_for_status\<close> raises \<^verbatim>\<open>HTTPError\<close>, a \<^verbatim>\<open>RequestException\<close>, for a status
  from 400 to 599; the handler logs it at debug level and the loop goes on.
\<close>

definition probe :: "env \<Rightarrow> string \<Rightarrow> string \<Rightarrow> string list \<times> world \<Rightarrow> string list \<times> world" where
  "probe e url ext = (\<lambda>(found_files, w).
     let backup_url = url @ ext;
         w1 = logging DEBUG (''Checking for: '' @ backup_url) w;
         response = requests_get e (requests w1) backup_url;
         w2 = w1\<lparr>requests := requests w1 @ [backup_url]\<rparr>
     in case response of
          RequestException msg \<Rightarrow>
            (found_files, logging DEBUG (''Error checking '' @ backup_url @ '': '' @ msg) w2)
        | Response status_code \<Rightarrow>
            if 400 \<le> status_code \<and> status_code < 600
            then (found_files,
                  logging DEBUG (''Error checking '' @ backup_url @ '': ''
                                   @ http_error_msg e status_code backup_url) w2)
            else if status_code = 200
            then (found_files @ [backup_url],
                  logging INFO (''Found backup file: '' @ backup_url) w2)
            else (found_files,
                  logging DEBUG (''Status code '' @ str status_code @ '' for '' @ backup_url) w2))"

primrec check_loop :: "env \<Rightarrow> string \<Rightarrow> string list \<Rightarrow> string list \<times> world \<Rightarrow> string list \<times> world" where
  "check_loop e url [] s = s"
| "check_loop e url (ext # extensions) s = check_loop e url extensions (probe e url ext s)"

definition check_backup_files :: "env \<Rightarrow> string \<Rightarrow> string list \<Rightarrow> world \<Rightarrow> string list \<times> world" where
  "check_backup_files e url extensions w = check_loop e url extensions ([], w)"

subsection \<open>\<^verbatim>\<open>save_results\<close>\<close>

text \<open>
  \<^verbatim>\<open>open(filename, "w")\<close> truncates the file; each round writes one result and a
  newline. A failure of \<^verbatim>\<open>open\<close> leaves the file as it was; a failure after \<open>k\<close>
  lines (of a later write, or of the flush when the file is closed) leaves at most the
  \<open>k\<close> lines written before it. Either is an \<^verbatim>\<open>IOError\<close>, logged as an error and
  not raised again. The handler is \<^verbatim>\<open>except IOError\<close>: an exception of another class
  raised while writing (an encoding error of the text layer) is not caught by it and
  is not part of the model.
\<close>

definition file_lines :: "string list \<Rightarrow> string" where
  "file_lines results = concat (map (\<lambda>result. result @ [CHR 0x0A]) results)"

definition save_results :: "env \<Rightarrow> string \<Rightarrow> string list \<Rightarrow> world \<Rightarrow> world" where
  "save_results e filename results w =
     (case open_write e filename of
        OpenFails msg \<Rightarrow> logging ERROR (''Error saving results to file: '' @ msg) w
      | WriteFails k msg \<Rightarrow>
          logging ERROR (''Error saving results to file: '' @ msg)
            (w\<lparr>files := (files w)(filename \<mapsto> file_lines (take k results))\<rparr>)
      | NoFault \<Rightarrow>
          logging INFO (''Results saved to: '' @ filename)
            (w\<lparr>files := (files w)(filename \<mapsto> file_lines results)\<rparr>))"

subsection \<open>\<^verbatim>\<open>main\<close>\<close>

text \<open>
  \<^verbatim>\<open>args.extensions if args.extensions else BACKUP_EXTENSIONS\<close> and
  \<^verbatim>\<open>if args.output:\<close> test truthiness: \<open>None\<close>, the empty list and the empty string
  are false. \<open>set_verbose\<close> is the \<^verbatim>\<open>if args.verbose:\<close> block, \<open>report\<close> the final
  \<^verbatim>\<open>if found_files: ... else: ...\<close> block of \<^verbatim>\<open>main\<close>. The result of \<open>main\<close> is the
  final world and the exit status of the process: 1 from \<^verbatim>\<open>sys.exit(1)\<close>, 0 when
  \<^verbatim>\<open>main\<close> returns.
\<close>

definition extensions_to_use :: "args \<Rightarrow> string list" where
  "extensions_to_use a =
     (case args_extensions a of
        None \<Rightarrow> BACKUP_EXTENSIONS
      | Some exts \<Rightarrow> if exts \<noteq> [] then exts else BACKUP_EXTENSIONS)"

definition set_verbose :: "args \<Rightarrow> world \<Rightarrow> world" where
  "set_verbose a w =
     (if args_verbose a
      then logging DEBUG ''Verbose mode enabled.'' (w\<lparr>log_level := DEBUG\<rparr>)
      else w)"

definition report :: "args \<Rightarrow> env \<Rightarrow> string list \<Rightarrow> world \<Rightarrow> world" where
  "report a e found_files w =
     (if found_files \<noteq> []
      then let w1 = fold print found_files (print ''Possible backup files found:'' w)
           in (case args_output a of
                 None \<Rightarrow> w1
               | Some filename \<Rightarrow>
                   if filename \<noteq> [] then save_results e filename found_files w1 else w1)
      else print ''No backup files found.'' w)"

definition main :: "env \<Rightarrow> args \<Rightarrow> world \<Rightarrow> world \<times> nat" where
  "main e a w0 =
     (let w1 = set_verbose a w0;
          url = args_url a
      in if \<not> is_valid_url e url
         then (logging ERROR
                 ''Invalid URL provided. Please provide a valid URL including scheme (e.g., http://example.com).''
                 w1, 1)
         else let w2 = logging INFO (''Scanning URL: '' @ url) w1;
                  (found_files, w3) = check_backup_files e url (extensions_to_use a) w2
              in (report a e found_files w3, 0))"

subsection \<open>The answer to each probe\<close>

text \<open>
  The probe with index \<open>i\<close> is made after the candidates of the suffixes before it
  have been requested; \<open>outcome_at\<close> is what the HTTP client answers to it, given the
  requests made before the scan.
\<close>

definition outcome_at :: "env \<Rightarrow> string \<Rightarrow> string list \<Rightarrow> string list \<Rightarrow> nat \<Rightarrow> http_outcome" where
  "outcome_at e url history extensions i =
     requests_get e (history @ map ((@) url) (take i extensions)) (url @ extensions ! i)"

subsection \<open>A concrete outside for the examples\<close>

text \<open>
  The examples need a parser, a server and a file system. \<open>urlparse_ascii\<close> follows
  \<^verbatim>\<open>urllib.parse.urlsplit\<close> on ASCII text as far as scheme and network location go:
  leading control characters and spaces are stripped, tab, CR and LF are removed, a
  scheme is split off at the first colon when it starts with a letter and consists of
  scheme characters, the network location follows \<^verbatim>\<open>//\<close> up to the first of
  \<^verbatim>\<open>/ ? #\<close>, and an unbalanced bracket raises. (The library also validates the
  address between balanced brackets; the examples have none.) \<open>stub_server\<close> is the
  server of the specification's test: 200 for \<^verbatim>\<open>http://example.com/app.bak\<close>, 404
  for everything else.
\<close>

definition scheme_chars :: "char \<Rightarrow> bool" where
  "scheme_chars c =
     (let n = (of_char c :: nat)
      in (97 \<le> n \<and> n \<le> 122) \<or> (65 \<le> n \<and> n \<le> 90) \<or> (48 \<le> n \<and> n \<le> 57)
         \<or> c = CHR ''+'' \<or> c = CHR ''-'' \<or> c = CHR ''.'')"

definition isalpha :: "char \<Rightarrow> bool" where
  "isalpha c = (let n = (of_char c :: nat) in (97 \<le> n \<and> n \<le> 122) \<or> (65 \<le> n \<and> n \<le> 90))"

definition lower :: "char \<Rightarrow> char" where
  "lower c = (let n = (of_char c :: nat) in if 65 \<le> n \<and> n \<le> 90 then char_of (n + 32) else c)"

definition urlparse_ascii :: "string \<Rightarrow> parse_result option" where
  "urlparse_ascii url0 =
     (let url1 = dropWhile (\<lambda>c. (of_char c :: nat) \<le> 32) url0;
          url2 = filter (\<lambda>c. c \<noteq> CHR 0x09 \<and> c \<noteq> CHR 0x0A \<and> c \<noteq> CHR 0x0D) url1;
          head = takeWhile (\<lambda>c. c \<noteq> CHR '':'') url2;
          split = (length head < length url2 \<and> head \<noteq> [] \<and> isalpha (hd url2)
                   \<and> list_all scheme_chars head);
          sch = (if split then map lower head else []);
          rest = (if split then drop (Suc (length head)) url2 else url2);
          loc = (if take 2 rest = ''//''
                 then takeWhile (\<lambda>c. c \<noteq> CHR ''/'' \<and> c \<noteq> CHR ''?'' \<and> c \<noteq> CHR ''#'') (drop 2 rest)
                 else [])
      in if (CHR ''['' \<in> set loc) = (CHR '']'' \<in> set loc)
         then Some \<lparr>scheme = sch, netloc = loc\<rparr>
         else None)"

text \<open>
  The host of a parse result, as the \<^verbatim>\<open>hostname\<close> attribute of the library computes it
  from the network location: what follows the last \<^verbatim>\<open>@\<close>, up to the port, or the text
  between brackets, in lower case; empty (\<^verbatim>\<open>None\<close> in Python) when there is none.
\<close>

definition hostname :: "parse_result \<Rightarrow> string" where
  "hostname result =
     (let hostinfo = rev (takeWhile (\<lambda>c. c \<noteq> CHR ''@'') (rev (netloc result)))
      in map lower
           (if CHR ''['' \<in> set hostinfo
            then takeWhile (\<lambda>c. c \<noteq> CHR '']'') (drop 1 (dropWhile (\<lambda>c. c \<noteq> CHR ''['') hostinfo))
            else takeWhile (\<lambda>c. c \<noteq> CHR '':'') hostinfo))"

definition stub_server :: "string list \<Rightarrow> string \<Rightarrow> http_outcome" where
  "stub_server history backup_url =
     (if backup_url = ''http://example.com/app.bak'' then Response 200 else Response 404)"

text \<open>
  A server whose connection is reset on the first default candidate and that has the
  second one.
\<close>

definition flaky_server :: "string list \<Rightarrow> string \<Rightarrow> http_outcome" where
  "flaky_server history backup_url =
     (if backup_url = ''http://example.com/app.bak'' then RequestException ''Connection reset by peer''
      else if backup_url = ''http://example.com/app.swp'' then Response 200
      else Response 404)"

definition stub_env :: env where
  "stub_env =
     \<lparr>urlparse = urlparse_ascii,
      requests_get = stub_server,
      http_error_msg = (\<lambda>status_code backup_url. str status_code @ '' Error for url: '' @ backup_url),
      open_write = (\<lambda>filename. NoFault)\<rparr>"


definition initial_world :: world where
  "initial_world =
     \<lparr>stdout = [], log_records = [], log_level = INFO, requests = [], files = Map.empty\<rparr>"

section \<open>Properties\<close>

subsection \<open>What each step leaves alone\<close>

lemma logging_frame [simp]:
  "requests (logging lvl msg w) = requests w"
  "files (logging lvl msg w) = files w"
  "stdout (logging lvl msg w) = stdout w"
  "log_level (logging lvl msg w) = log_level w"
  by (simp_all add: logging_def)

lemma print_frame [simp]:
  "requests (print s w) = requests w"
  "files (print s w) = files w"
  "log_records (print s w) = log_records w"
  "log_level (print s w) = log_level w"
  "stdout (print s w) = stdout w @ s @ [CHR 0x0A]"
  by (simp_all add: print_def)

lemma probe_fst:
  "fst (probe e url ext (found, w)) =
     found @ (if requests_get e (requests w) (url @ ext) = Response 200 then [url @ ext] else [])"
  by (simp add: probe_def Let_def split: http_outcome.split)

lemma probe_snd_frame [simp]:
  "requests (snd (probe e url ext (found, w))) = requests w @ [url @ ext]"
  "files (snd (probe e url ext (found, w))) = files w"
  "stdout (snd (probe e url ext (found, w))) = stdout w"
  "log_level (snd (probe e url ext (found, w))) = log_level w"
  by (simp_all add: probe_def Let_def split: http_outcome.split)

lemma outcome_at_Suc:
  "outcome_at e url h (x # xs) (Suc i) = outcome_at e url (h @ [url @ x]) xs i"
  by (simp add: outcome_at_def)

lemma upt_Suc_split:
  "map g (filter P [0..<Suc n]) =
     (if P 0 then [g 0] else []) @ map (g \<circ> Suc) (filter (P \<circ> Suc) [0..<n])"
proof -
  have "[0..<Suc n] = 0 # map Suc [0..<n]"
    by (simp add: upt_conv_Cons map_Suc_upt del: upt_Suc)
  then show ?thesis
    by (simp add: filter_map del: upt_Suc)
qed

lemma check_loop_frame:
  "requests (snd (check_loop e url exts s)) = requests (snd s) @ map ((@) url) exts
   \<and> files (snd (check_loop e url exts s)) = files (snd s)
   \<and> stdout (snd (check_loop e url exts s)) = stdout (snd s)
   \<and> log_level (snd (check_loop e url exts s)) = log_level (snd s)"
proof (induction exts arbitrary: s)
  case Nil
  show ?case by simp
next
  case (Cons x xs)
  obtain f w where s: "s = (f, w)" by (cases s)
  show ?case using Cons.IH [of "probe e url x (f, w)"] by (simp add: s)
qed

lemma check_loop_found:
  "fst (check_loop e url exts (found, w)) =
     found @ map (\<lambda>i. url @ exts ! i)
               (filter (\<lambda>i. outcome_at e url (requests w) exts i = Response 200) [0..<length exts])"
proof (induction exts arbitrary: found w)
  case Nil
  show ?case by simp
next
  case (Cons x xs)
  obtain f' w' where p: "probe e url x (found, w) = (f', w')" by (cases "probe e url x (found, w)")
  have f': "f' = found @ (if requests_get e (requests w) (url @ x) = Response 200 then [url @ x] else [])"
    using probe_fst [of e url x found w] by (simp add: p)
  have w': "requests w' = requests w @ [url @ x]"
    using probe_snd_frame(1) [of e url x found w] by (simp add: p)
  have o0: "outcome_at e url (requests w) (x # xs) 0 = requests_get e (requests w) (url @ x)"
    by (simp add: outcome_at_def)
  show ?case
    unfolding check_loop.simps p Cons.IH f' w' length_Cons upt_Suc_split
    by (simp add: o0 comp_def outcome_at_Suc)
qed

lemma check_loop_append:
  "check_loop e url (xs @ ys) s = check_loop e url ys (check_loop e url xs s)"
  by (induction xs arbitrary: s) simp_all

lemma check_backup_files_found:
  "fst (check_backup_files e url exts w) =
     map (\<lambda>i. url @ exts ! i)
       (filter (\<lambda>i. outcome_at e url (requests w) exts i = Response 200) [0..<length exts])"
  by (simp add: check_backup_files_def check_loop_found)

lemma check_backup_files_frame:
  "requests (snd (check_backup_files e url exts w)) = requests w @ map ((@) url) exts"
  "files (snd (check_backup_files e url exts w)) = files w"
  "stdout (snd (check_backup_files e url exts w)) = stdout w"
  "log_level (snd (check_backup_files e url exts w)) = log_level w"
  using check_loop_frame [of e url exts "([], w)"] by (simp_all add: check_backup_files_def)

lemma found_depends_on_history:
  "requests w = requests w' \<Longrightarrow>
     fst (check_backup_files e url exts w) = fst (check_backup_files e url exts w')"
  by (simp add: check_backup_files_found)

lemma set_verbose_frame [simp]:
  "requests (set_verbose a w) = requests w"
  "files (set_verbose a w) = files w"
  "stdout (set_verbose a w) = stdout w"
  by (simp_all add: set_verbose_def)

lemma main_invalid:
  "\<not> is_valid_url e (args_url a) \<Longrightarrow>
     main e a w =
       (logging ERROR
          ''Invalid URL provided. Please provide a valid URL including scheme (e.g., http://example.com).''
          (set_verbose a w), 1)"
  by (simp add: main_def Let_def)

lemma main_valid:
  "is_valid_url e (args_url a) \<Longrightarrow>
     main e a w =
       (let c = check_backup_files e (args_url a) (extensions_to_use a)
                  (logging INFO (''Scanning URL: '' @ args_url a) (set_verbose a w))
        in (report a e (fst c) (snd c), 0))"
  by (simp add: main_def Let_def split: prod.split)

lemma main_found [simp]:
  "fst (check_backup_files e url exts (logging lvl msg (set_verbose a w)))
   = fst (check_backup_files e url exts w)"
  by (rule found_depends_on_history) simp

lemma stdout_fold_print:
  "stdout (fold print xs w) = stdout w @ file_lines xs"
  by (induction xs arbitrary: w) (simp_all add: file_lines_def)

lemma fold_print_frame [simp]:
  "requests (fold print xs w) = requests w"
  "files (fold print xs w) = files w"
  "log_records (fold print xs w) = log_records w"
  by (induction xs arbitrary: w) simp_all


lemma save_results_frame [simp]:
  "requests (save_results e filename results w) = requests w"
  "stdout (save_results e filename results w) = stdout w"
  by (simp_all add: save_results_def split: io_fault.split)

lemma report_frame [simp]:
  "requests (report a e found w) = requests w"
  by (simp add: report_def Let_def split: option.split)

lemma report_stdout:
  "stdout (report a e found w) =
     stdout w @ (if found \<noteq> [] then ''Possible backup files found:'' @ [CHR 0x0A] @ file_lines found
                 else ''No backup files found.'' @ [CHR 0x0A])"
  by (simp add: report_def Let_def stdout_fold_print split: option.split)

lemma report_empty_files:
  "files (report a e [] w) = files w"
  by (simp add: report_def)

lemma hostname_netloc: "hostname result \<noteq> [] \<Longrightarrow> netloc result \<noteq> []"
  by (auto simp add: hostname_def)

lemma check_backup_files_split:
  "i < length exts \<Longrightarrow>
     check_backup_files e url exts w =
       check_loop e url (drop (Suc i) exts)
         (probe e url (exts ! i) (check_backup_files e url (take i exts) w))"
proof -
  assume i: "i < length exts"
  then have "exts = take i exts @ exts ! i # drop (Suc i) exts"
    by (simp add: id_take_nth_drop)
  then have "check_loop e url exts ([], w) =
      check_loop e url (take i exts @ exts ! i # drop (Suc i) exts) ([], w)"
    by simp
  then show ?thesis
    by (simp only: check_backup_files_def check_loop_append check_loop.simps)
qed

lemma probe_error:
  "requests_get e (requests w) (url @ ext) = RequestException msg
   \<or> (\<exists>status_code. requests_get e (requests w) (url @ ext) = Response status_code
         \<and> 400 \<le> status_code \<and> status_code < 600) \<Longrightarrow>
   \<exists>text. probe e url ext (found, w) =
     (found, logging DEBUG (''Error checking '' @ url @ ext @ '': '' @ text)
               ((logging DEBUG (''Checking for: '' @ url @ ext) w)
                  \<lparr>requests := requests w @ [url @ ext]\<rparr>))"
  by (auto simp add: probe_def Let_def)

lemma found_at_200:
  "j < length exts \<Longrightarrow> outcome_at e url (requests w) exts j = Response 200 \<Longrightarrow>
     url @ exts ! j \<in> set (fst (check_backup_files e url exts w))"
  by (simp add: check_backup_files_found image_iff) (metis atLeastLessThan_iff zero_le)

lemma check_loop_count:
  "\<forall>history. requests_get e history (url @ ext) = Response 200 \<Longrightarrow>
     count_list (fst (check_loop e url exts (found, w))) (url @ ext) =
       count_list found (url @ ext) + count_list exts ext"
proof (induction exts arbitrary: found w)
  case Nil
  show ?case by simp
next
  case (Cons x xs)
  obtain f' w' where p: "probe e url x (found, w) = (f', w')" by (cases "probe e url x (found, w)")
  have f': "f' = found @ (if requests_get e (requests w) (url @ x) = Response 200 then [url @ x] else [])"
    using probe_fst [of e url x found w] by (simp add: p)
  have "count_list f' (url @ ext) = count_list found (url @ ext) + (if x = ext then 1 else 0)"
    using Cons.prems by (simp add: f')
  then show ?case
    using Cons.IH [OF Cons.prems, of f' w'] by (simp add: p)
qed

lemma main_valid_exit:
  "is_valid_url e (args_url a) \<Longrightarrow> snd (main e a w) = 0"
  by (simp add: main_valid Let_def)

lemma main_valid_requests:
  "is_valid_url e (args_url a) \<Longrightarrow>
     requests (fst (main e a w)) = requests w @ map ((@) (args_url a)) (extensions_to_use a)"
  by (simp add: main_valid Let_def check_backup_files_frame)

lemma main_valid_stdout:
  "is_valid_url e (args_url a) \<Longrightarrow>
     stdout (fst (main e a w)) =
       stdout w @
         (if fst (check_backup_files e (args_url a) (extensions_to_use a) w) \<noteq> []
          then ''Possible backup files found:'' @ [CHR 0x0A]
                 @ file_lines (fst (check_backup_files e (args_url a) (extensions_to_use a) w))
          else ''No backup files found.'' @ [CHR 0x0A])"
  by (simp add: main_valid Let_def report_stdout check_backup_files_frame)

lemma report_save:
  "found \<noteq> [] \<Longrightarrow> args_output a = Some filename \<Longrightarrow> filename \<noteq> [] \<Longrightarrow>
     report a e found w =
       save_results e filename found (fold print found (print ''Possible backup files found:'' w))"
  by (simp add: report_def Let_def)

lemma save_results_NoFault:
  "open_write e filename = NoFault \<Longrightarrow>
     files (save_results e filename results w) = (files w)(filename \<mapsto> file_lines results)"
  by (simp add: save_results_def)









subsection \<open>The prober\<close>

text \<open>
  C1. A probed candidate is recorded as found if and only if the final response has
  status exactly 200: one round of the loop appends the candidate when the answer is
  status 200 and leaves the list as it was for every other answer (any other status,
  or an exception), and the list returned by the scan consists of the candidates, by
  position in the suffix list, whose probe was answered with status 200.
\<close>

theorem found_iff_status_200:
  "fst (probe e url ext (found_files, w)) =
     (if requests_get e (requests w) (url @ ext) = Response 200
      then found_files @ [url @ ext] else found_files)
   \<and> fst (check_backup_files e url extensions w) =
     map (\<lambda>i. url @ extensions ! i)
       (filter (\<lambda>i. outcome_at e url (requests w) extensions i = Response 200)
          [0..<length extensions])"
  by (simp add: probe_fst check_backup_files_found)

text \<open>
  C2. Every candidate is the base URL followed directly by the suffix; the candidates
  are requested one after the other in the order of the suffix list; the list returned
  is a subsequence of the candidates, in that order.
\<close>

theorem candidates_in_list_order:
  "requests (snd (check_backup_files e url extensions w)) =
     requests w @ map (\<lambda>ext. url @ ext) extensions
   \<and> subseq (fst (check_backup_files e url extensions w)) (map (\<lambda>ext. url @ ext) extensions)"
proof -
  let ?g = "\<lambda>i. url @ extensions ! i"
  have "map (\<lambda>ext. url @ ext) extensions = map ((@) url) (map ((!) extensions) [0..<length extensions])"
    by (simp only: map_nth)
  then have all: "map (\<lambda>ext. url @ ext) extensions = map ?g [0..<length extensions]"
    by (simp add: comp_def)
  have "subseq (fst (check_backup_files e url extensions w)) (map ?g [0..<length extensions])"
    unfolding check_backup_files_found by (rule subseq_map) simp
  with all show ?thesis
    by (simp add: check_backup_files_frame)
qed

text \<open>
  C9. Nothing removes duplicates from the suffix list: every occurrence of a suffix is
  requested on its own, so the candidate of a suffix is requested as many times as the
  suffix occurs in the list; and when the server answers that candidate with status
  200 every time, the candidate occurs in the result as many times as its suffix
  occurs in the list. The report prints the result list it is given line by line and
  saves it line by line, whatever it repeats.
\<close>

theorem duplicates_not_removed:
  "requests (snd (check_backup_files e url extensions w)) =
     requests w @ map (\<lambda>x. url @ x) extensions
   \<and> count_list (map (\<lambda>x. url @ x) extensions) (url @ ext) = count_list extensions ext
   \<and> ((\<forall>history. requests_get e history (url @ ext) = Response 200) \<longrightarrow>
        count_list (fst (check_backup_files e url extensions w)) (url @ ext)
          = count_list extensions ext)
   \<and> (found_files \<noteq> [] \<longrightarrow>
        stdout (report a e found_files w) =
          stdout w @ ''Possible backup files found:'' @ [CHR 0x0A]
            @ concat (map (\<lambda>file. file @ [CHR 0x0A]) found_files))
   \<and> (found_files \<noteq> [] \<and> args_output a = Some filename \<and> filename \<noteq> []
          \<and> open_write e filename = NoFault \<longrightarrow>
        files (report a e found_files w) filename
          = Some (concat (map (\<lambda>result. result @ [CHR 0x0A]) found_files)))"
proof -
  have probed: "requests (snd (check_backup_files e url extensions w)) =
      requests w @ map (\<lambda>x. url @ x) extensions"
    by (simp add: check_backup_files_frame)
  have same: "count_list (map (\<lambda>x. url @ x) extensions) (url @ ext) = count_list extensions ext"
    by (induction extensions) simp_all
  have found: "(\<forall>history. requests_get e history (url @ ext) = Response 200) \<longrightarrow>
        count_list (fst (check_backup_files e url extensions w)) (url @ ext)
          = count_list extensions ext"
    by (simp add: check_backup_files_def check_loop_count)
  have printed: "found_files \<noteq> [] \<longrightarrow>
        stdout (report a e found_files w) =
          stdout w @ ''Possible backup files found:'' @ [CHR 0x0A]
            @ concat (map (\<lambda>file. file @ [CHR 0x0A]) found_files)"
    by (simp add: report_stdout file_lines_def)
  have saved: "found_files \<noteq> [] \<and> args_output a = Some filename \<and> filename \<noteq> []
          \<and> open_write e filename = NoFault \<longrightarrow>
        files (report a e found_files w) filename
          = Some (concat (map (\<lambda>result. result @ [CHR 0x0A]) found_files))"
    by (simp add: report_save save_results_NoFault file_lines_def)
  from probed same found printed saved show ?thesis by blast
qed

theorem duplicates_not_removed_witness:
  "fst (check_backup_files stub_env ''http://example.com/app'' [''.bak'', ''.old'', ''.bak''] initial_world)
     = [''http://example.com/app.bak'', ''http://example.com/app.bak'']
   \<and> count_list (fst (check_backup_files stub_env ''http://example.com/app''
                         [''.bak'', ''.old'', ''.bak''] initial_world))
        ''http://example.com/app.bak'' = 2
   \<and> files (report \<lparr>args_url = ''http://example.com/app'', args_verbose = False,
                      args_output = Some ''results.txt'',
                      args_extensions = Some [''.bak'', ''.old'', ''.bak'']\<rparr>
               stub_env [''http://example.com/app.bak'', ''http://example.com/app.bak''] initial_world)
        ''results.txt''
     = Some (''http://example.com/app.bak'' @ [CHR 0x0A] @ ''http://example.com/app.bak'' @ [CHR 0x0A])"
proof -
  let ?u = "''http://example.com/app''"
  let ?x = "[''.bak'', ''.old'', ''.bak'']"
  let ?a = "\<lparr>args_url = ?u, args_verbose = False, args_output = Some ''results.txt'',
             args_extensions = Some ?x\<rparr>"
  let ?f = "[''http://example.com/app.bak'', ''http://example.com/app.bak'']"
  have a: "\<forall>history. requests_get stub_env history (?u @ ''.bak'') = Response 200"
    by (simp add: stub_env_def stub_server_def)
  have f: "fst (check_backup_files stub_env ?u ?x initial_world) = ?f"
    by code_simp
  have o: "?f \<noteq> [] \<and> args_output ?a = Some ''results.txt'' \<and> ''results.txt'' \<noteq> []
           \<and> open_write stub_env ''results.txt'' = NoFault"
    by (simp add: stub_env_def)
  note t = duplicates_not_removed [of stub_env ?u ?x initial_world "''.bak''" ?f ?a "''results.txt''"]
  from t a have "count_list (fst (check_backup_files stub_env ?u ?x initial_world)) (?u @ ''.bak'')
      = count_list ?x ''.bak''"
    by blast
  moreover from t o have "files (report ?a stub_env ?f initial_world) ''results.txt''
      = Some (concat (map (\<lambda>result. result @ [CHR 0x0A]) ?f))"
    by blast
  ultimately show ?thesis using f by simp
qed

text \<open>
  C4. When the probe of the suffix with index \<open>i\<close> fails, by an exception of the HTTP
  client or by a status from 400 to 599 that \<^verbatim>\<open>raise_for_status\<close> raises, that round
  leaves the found list as it was and logs the error at debug level only; the loop goes
  on with the suffixes after it from that state, so that every candidate of the list
  is requested, and every later candidate answered with status 200 is in the result;
  \<^verbatim>\<open>main\<close> on a valid URL with this suffix list still ends with exit status 0.
\<close>

theorem error_does_not_abort_scan:
  assumes "i < length extensions"
    and "outcome_at e url (requests w) extensions i = RequestException msg
         \<or> (\<exists>status_code. outcome_at e url (requests w) extensions i = Response status_code
               \<and> 400 \<le> status_code \<and> status_code < 600)"
    and "before = check_backup_files e url (take i extensions) w"
  shows "(\<exists>text. probe e url (extensions ! i) before =
            (fst before,
             logging DEBUG (''Error checking '' @ url @ extensions ! i @ '': '' @ text)
               ((logging DEBUG (''Checking for: '' @ url @ extensions ! i) (snd before))
                  \<lparr>requests := requests (snd before) @ [url @ extensions ! i]\<rparr>)))
     \<and> check_backup_files e url extensions w =
         check_loop e url (drop (Suc i) extensions) (probe e url (extensions ! i) before)
     \<and> requests (snd (check_backup_files e url extensions w)) =
         requests w @ map (\<lambda>ext. url @ ext) extensions
     \<and> (\<forall>j. i < j \<and> j < length extensions
             \<and> outcome_at e url (requests w) extensions j = Response 200
           \<longrightarrow> url @ extensions ! j \<in> set (fst (check_backup_files e url extensions w)))
     \<and> (is_valid_url e url \<and> args_url a = url \<and> extensions_to_use a = extensions
           \<longrightarrow> snd (main e a w) = 0
               \<and> requests (fst (main e a w)) = requests w @ map (\<lambda>ext. url @ ext) extensions)"
proof -
  have hist: "requests (snd before) = requests w @ map ((@) url) (take i extensions)"
    by (simp add: assms(3) check_backup_files_frame)
  have "requests_get e (requests (snd before)) (url @ extensions ! i) =
          outcome_at e url (requests w) extensions i"
    by (simp add: hist outcome_at_def)
  with assms(2) have err:
    "requests_get e (requests (snd before)) (url @ extensions ! i) = RequestException msg
     \<or> (\<exists>status_code. requests_get e (requests (snd before)) (url @ extensions ! i) = Response status_code
           \<and> 400 \<le> status_code \<and> status_code < 600)"
    by simp
  have c1: "\<exists>text. probe e url (extensions ! i) before =
            (fst before,
             logging DEBUG (''Error checking '' @ url @ extensions ! i @ '': '' @ text)
               ((logging DEBUG (''Checking for: '' @ url @ extensions ! i) (snd before))
                  \<lparr>requests := requests (snd before) @ [url @ extensions ! i]\<rparr>))"
    using probe_error [OF err, of "fst before"] by simp
  have c2: "check_backup_files e url extensions w =
         check_loop e url (drop (Suc i) extensions) (probe e url (extensions ! i) before)"
    unfolding assms(3) by (rule check_backup_files_split [OF assms(1)])
  have c3: "requests (snd (check_backup_files e url extensions w)) =
         requests w @ map (\<lambda>ext. url @ ext) extensions"
    by (simp add: check_backup_files_frame)
  have c4: "\<forall>j. i < j \<and> j < length extensions
             \<and> outcome_at e url (requests w) extensions j = Response 200
           \<longrightarrow> url @ extensions ! j \<in> set (fst (check_backup_files e url extensions w))"
    by (simp add: found_at_200)
  have c5: "is_valid_url e url \<and> args_url a = url \<and> extensions_to_use a = extensions
           \<longrightarrow> snd (main e a w) = 0
               \<and> requests (fst (main e a w)) = requests w @ map (\<lambda>ext. url @ ext) extensions"
    using main_valid_exit [of e a w] main_valid_requests [of e a w] by auto
  from c1 c2 c3 c4 c5 show ?thesis by blast
qed

theorem error_does_not_abort_scan_witness:
  "outcome_at (stub_env\<lparr>requests_get := flaky_server\<rparr>) ''http://example.com/app'' [] BACKUP_EXTENSIONS 0
     = RequestException ''Connection reset by peer''
   \<and> ''http://example.com/app.swp'' \<in>
       set (fst (check_backup_files (stub_env\<lparr>requests_get := flaky_server\<rparr>)
                   ''http://example.com/app'' BACKUP_EXTENSIONS initial_world))
   \<and> snd (main (stub_env\<lparr>requests_get := flaky_server\<rparr>)
             \<lparr>args_url = ''http://example.com/app'', args_verbose = False,
                args_output = None, args_extensions = None\<rparr> initial_world) = 0"
proof -
  let ?e = "stub_env\<lparr>requests_get := flaky_server\<rparr>"
  let ?u = "''http://example.com/app''"
  let ?a = "\<lparr>args_url = ?u, args_verbose = False, args_output = None, args_extensions = None\<rparr>"
  have r0: "requests initial_world = []" by (simp add: initial_world_def)
  have i: "0 < length BACKUP_EXTENSIONS" by (simp add: BACKUP_EXTENSIONS_def)
  have o0: "outcome_at ?e ?u [] BACKUP_EXTENSIONS 0 = RequestException ''Connection reset by peer''"
    by code_simp
  have o1: "outcome_at ?e ?u [] BACKUP_EXTENSIONS 1 = Response 200"
    by code_simp
  have n1: "BACKUP_EXTENSIONS ! 1 = ''.swp''" "(1::nat) < length BACKUP_EXTENSIONS"
    by (simp_all add: BACKUP_EXTENSIONS_def)
  have v: "is_valid_url ?e ?u" by code_simp
  have x: "extensions_to_use ?a = BACKUP_EXTENSIONS" by (simp add: extensions_to_use_def)
  have h: "outcome_at ?e ?u (requests initial_world) BACKUP_EXTENSIONS 0 = RequestException ''Connection reset by peer''
         \<or> (\<exists>status_code. outcome_at ?e ?u (requests initial_world) BACKUP_EXTENSIONS 0 = Response status_code
               \<and> 400 \<le> status_code \<and> status_code < 600)"
    using o0 r0 by simp
  note t = error_does_not_abort_scan [OF i h refl, of ?a]
  from t have "\<forall>j. 0 < j \<and> j < length BACKUP_EXTENSIONS
             \<and> outcome_at ?e ?u (requests initial_world) BACKUP_EXTENSIONS j = Response 200
           \<longrightarrow> ?u @ BACKUP_EXTENSIONS ! j \<in> set (fst (check_backup_files ?e ?u BACKUP_EXTENSIONS initial_world))"
    by blast
  moreover have "0 < (1::nat) \<and> 1 < length BACKUP_EXTENSIONS
      \<and> outcome_at ?e ?u (requests initial_world) BACKUP_EXTENSIONS 1 = Response 200"
    using o1 n1 r0 by simp
  ultimately have "?u @ BACKUP_EXTENSIONS ! 1 \<in> set (fst (check_backup_files ?e ?u BACKUP_EXTENSIONS initial_world))"
    by blast
  then have found: "''http://example.com/app.swp'' \<in> set (fst (check_backup_files ?e ?u BACKUP_EXTENSIONS initial_world))"
    using n1(1) by simp
  from t v x have "snd (main ?e ?a initial_world) = 0" by simp
  with o0 found show ?thesis by simp
qed

subsection \<open>Validation and exit status\<close>




text \<open>
  C10. The scheme is not restricted: whenever the parser returns a non-empty scheme
  and a network location with a non-empty host, the URL is valid, whatever the scheme
  is, and \<^verbatim>\<open>main\<close> goes on to request every candidate of a non-empty suffix list.
\<close>

theorem any_scheme_accepted:
  "urlparse e (args_url a) = Some result \<Longrightarrow> scheme result \<noteq> [] \<Longrightarrow> hostname result \<noteq> [] \<Longrightarrow>
     is_valid_url e (args_url a)
     \<and> extensions_to_use a \<noteq> []
     \<and> requests (fst (main e a w)) = requests w @ map (\<lambda>ext. args_url a @ ext) (extensions_to_use a)"
proof -
  assume p: "urlparse e (args_url a) = Some result" "scheme result \<noteq> []" "hostname result \<noteq> []"
  then have v: "is_valid_url e (args_url a)" by (simp add: is_valid_url_def hostname_netloc)
  have "extensions_to_use a \<noteq> []"
    by (simp add: extensions_to_use_def BACKUP_EXTENSIONS_def split: option.split)
  with v show ?thesis
    by (simp add: main_valid_requests)
qed

theorem any_scheme_accepted_witness:
  "urlparse stub_env ''ftp://host'' = Some \<lparr>scheme = ''ftp'', netloc = ''host''\<rparr>
   \<and> hostname \<lparr>scheme = ''ftp'', netloc = ''host''\<rparr> = ''host''
   \<and> is_valid_url stub_env ''ftp://host''
   \<and> requests (fst (main stub_env \<lparr>args_url = ''ftp://host'', args_verbose = False,
             args_output = None, args_extensions = Some [''.bak'']\<rparr> initial_world))
      = [''ftp://host.bak'']"
proof -
  let ?a = "\<lparr>args_url = ''ftp://host'', args_verbose = False,
             args_output = None, args_extensions = Some [''.bak'']\<rparr>"
  have p: "urlparse stub_env (args_url ?a) = Some \<lparr>scheme = ''ftp'', netloc = ''host''\<rparr>"
    by code_simp
  have s: "scheme \<lparr>scheme = ''ftp'', netloc = ''host''\<rparr> \<noteq> []" by simp
  have h: "hostname \<lparr>scheme = ''ftp'', netloc = ''host''\<rparr> = ''host''" by code_simp
  then have n: "hostname \<lparr>scheme = ''ftp'', netloc = ''host''\<rparr> \<noteq> []" by simp
  have x: "extensions_to_use ?a = [''.bak'']" by (simp add: extensions_to_use_def)
  have r0: "requests initial_world = []" by (simp add: initial_world_def)
  show ?thesis
    using p h x r0 any_scheme_accepted [OF p s n, of initial_world] by simp
qed

subsection \<open>The suffix list\<close>

text \<open>
  C7. On a valid URL: a suffix list given with \<^verbatim>\<open>-e\<close> (non-empty, by \<^verbatim>\<open>nargs='+'\<close>)
  replaces the default list, the requests made are the candidates of the given
  suffixes and no others, so no default suffix outside the given list is probed;
  without \<^verbatim>\<open>-e\<close> the requests are the candidates of the seven default suffixes in
  their order.
\<close>

theorem custom_extensions_replace_defaults:
  "is_valid_url e (args_url a) \<Longrightarrow>
     (\<forall>exts. args_extensions a = Some exts \<and> exts \<noteq> [] \<longrightarrow>
        requests (fst (main e a w)) = requests w @ map (\<lambda>ext. args_url a @ ext) exts
        \<and> (\<forall>d \<in> set BACKUP_EXTENSIONS. d \<notin> set exts \<longrightarrow>
              args_url a @ d \<notin> set (map (\<lambda>ext. args_url a @ ext) exts)))
     \<and> (args_extensions a = None \<longrightarrow>
        requests (fst (main e a w)) =
          requests w @ map (\<lambda>ext. args_url a @ ext)
                         [''.bak'', ''.swp'', ''~'', ''.old'', ''.tmp'', ''.backup'', ''.orig''])"
proof -
  assume v: "is_valid_url e (args_url a)"
  have r: "requests (fst (main e a w)) = requests w @ map ((@) (args_url a)) (extensions_to_use a)"
    by (rule main_valid_requests [OF v])
  have custom: "\<forall>exts. args_extensions a = Some exts \<and> exts \<noteq> [] \<longrightarrow>
        requests (fst (main e a w)) = requests w @ map (\<lambda>ext. args_url a @ ext) exts
        \<and> (\<forall>d \<in> set BACKUP_EXTENSIONS. d \<notin> set exts \<longrightarrow>
              args_url a @ d \<notin> set (map (\<lambda>ext. args_url a @ ext) exts))"
    by (auto simp add: r extensions_to_use_def)
  have dflt: "args_extensions a = None \<longrightarrow>
        requests (fst (main e a w)) =
          requests w @ map (\<lambda>ext. args_url a @ ext)
                         [''.bak'', ''.swp'', ''~'', ''.old'', ''.tmp'', ''.backup'', ''.orig'']"
    by (simp add: r extensions_to_use_def BACKUP_EXTENSIONS_def)
  from custom dflt show ?thesis by blast
qed

theorem custom_extensions_replace_defaults_witness:
  "is_valid_url stub_env ''http://example.com/app''
   \<and> requests (fst (main stub_env \<lparr>args_url = ''http://example.com/app'', args_verbose = False,
             args_output = None, args_extensions = Some [''.bak'', ''.old'', ''.config'']\<rparr> initial_world))
      = [''http://example.com/app.bak'', ''http://example.com/app.old'', ''http://example.com/app.config'']
   \<and> requests (fst (main stub_env \<lparr>args_url = ''http://example.com/app'', args_verbose = False,
             args_output = None, args_extensions = None\<rparr> initial_world))
      = [''http://example.com/app.bak'', ''http://example.com/app.swp'', ''http://example.com/app~'',
         ''http://example.com/app.old'', ''http://example.com/app.tmp'', ''http://example.com/app.backup'',
         ''http://example.com/app.orig'']"
proof -
  let ?a = "\<lparr>args_url = ''http://example.com/app'', args_verbose = False,
             args_output = None, args_extensions = Some [''.bak'', ''.old'', ''.config'']\<rparr>"
  let ?b = "\<lparr>args_url = ''http://example.com/app'', args_verbose = False,
             args_output = None, args_extensions = None\<rparr>"
  have v: "is_valid_url stub_env ''http://example.com/app''" by code_simp
  have va: "is_valid_url stub_env (args_url ?a)" and vb: "is_valid_url stub_env (args_url ?b)"
    using v by simp_all
  have r0: "requests initial_world = []" by (simp add: initial_world_def)
  show ?thesis
    using v r0 custom_extensions_replace_defaults [OF va, of initial_world]
      custom_extensions_replace_defaults [OF vb, of initial_world]
    by simp
qed

subsection \<open>The reporter\<close>

text \<open>
  Before the scan \<^verbatim>\<open>main\<close> only logs, so the scan inside \<^verbatim>\<open>main\<close> finds what
  \<open>check_backup_files\<close> finds from the world \<^verbatim>\<open>main\<close> starts in (\<open>main_found\<close>); the
  theorems below name the found URLs that way.
\<close>

text \<open>
  C8. On a valid URL: when the scan found something, standard output receives the
  header line and then every found URL on its own line, in order; when it found
  nothing, the one line \<^verbatim>\<open>No backup files found.\<close>
\<close>

theorem console_report:
  "is_valid_url e (args_url a) \<Longrightarrow>
     found_files = fst (check_backup_files e (args_url a) (extensions_to_use a) w) \<Longrightarrow>
     (found_files \<noteq> [] \<longrightarrow>
        stdout (fst (main e a w)) =
          stdout w @ ''Possible backup files found:'' @ [CHR 0x0A]
            @ concat (map (\<lambda>file. file @ [CHR 0x0A]) found_files))
     \<and> (found_files = [] \<longrightarrow>
        stdout (fst (main e a w)) = stdout w @ ''No backup files found.'' @ [CHR 0x0A])"
  by (simp add: main_valid_stdout file_lines_def)

theorem console_report_witness:
  "is_valid_url stub_env ''http://example.com/app''
   \<and> stdout (fst (main stub_env \<lparr>args_url = ''http://example.com/app'', args_verbose = False,
             args_output = None, args_extensions = None\<rparr> initial_world))
      = ''Possible backup files found:'' @ [CHR 0x0A] @ ''http://example.com/app.bak'' @ [CHR 0x0A]
   \<and> stdout (fst (main stub_env \<lparr>args_url = ''http://example.com/app'', args_verbose = False,
             args_output = None, args_extensions = Some [''.old'']\<rparr> initial_world))
      = ''No backup files found.'' @ [CHR 0x0A]"
proof -
  let ?a = "\<lparr>args_url = ''http://example.com/app'', args_verbose = False,
             args_output = None, args_extensions = None\<rparr>"
  let ?b = "\<lparr>args_url = ''http://example.com/app'', args_verbose = False,
             args_output = None, args_extensions = Some [''.old'']\<rparr>"
  have v: "is_valid_url stub_env ''http://example.com/app''" by code_simp
  have va: "is_valid_url stub_env (args_url ?a)" and vb: "is_valid_url stub_env (args_url ?b)"
    using v by simp_all
  have fa: "fst (check_backup_files stub_env (args_url ?a) (extensions_to_use ?a) initial_world)
              = [''http://example.com/app.bak'']"
    by code_simp
  have fb: "fst (check_backup_files stub_env (args_url ?b) (extensions_to_use ?b) initial_world) = []"
    by code_simp
  have s0: "stdout initial_world = []" by (simp add: initial_world_def)
  show ?thesis
    using v s0 console_report [OF va fa [symmetric]] console_report [OF vb fb [symmetric]]
    by simp
qed

text \<open>
  C5. When the scan finds nothing, the files are as they were before the run, whether
  or not an output path was given.
\<close>

theorem no_match_no_file:
  "fst (check_backup_files e (args_url a) (extensions_to_use a) w) = [] \<Longrightarrow>
     files (fst (main e a w)) = files w"
proof (cases "is_valid_url e (args_url a)")
  case False
  then show ?thesis by (simp add: main_invalid)
next
  case True
  assume "fst (check_backup_files e (args_url a) (extensions_to_use a) w) = []"
  with True show ?thesis
    by (simp add: main_valid Let_def report_empty_files check_backup_files_frame)
qed

theorem no_match_no_file_witness:
  "fst (check_backup_files stub_env ''http://example.com/index.php''
          (extensions_to_use \<lparr>args_url = ''http://example.com/index.php'', args_verbose = False,
             args_output = Some ''results.txt'', args_extensions = None\<rparr>) initial_world) = []
   \<and> files (fst (main stub_env \<lparr>args_url = ''http://example.com/index.php'', args_verbose = False,
             args_output = Some ''results.txt'', args_extensions = None\<rparr> initial_world))
        ''results.txt'' = None"
proof -
  let ?a = "\<lparr>args_url = ''http://example.com/index.php'', args_verbose = False,
             args_output = Some ''results.txt'', args_extensions = None\<rparr>"
  have h: "fst (check_backup_files stub_env (args_url ?a) (extensions_to_use ?a) initial_world) = []"
    by code_simp
  have "files initial_world ''results.txt'' = None" by (simp add: initial_world_def)
  with h no_match_no_file [OF h] show ?thesis by simp
qed




end
